theory Spec2Isabelle
  imports Complex_Main "HOL-Library.Sublist"
begin

section \<open>Strings of the host language\<close>

text \<open>
  The provider is a TypeScript class; its strings are sequences of UTF-16 code units.
  They are modelled as Isabelle strings, one \<^typ>\<open>char\<close> per code unit, so the model
  covers the code units below 256 (Latin-1). Every literal and every character class of
  the program is ASCII; the only operations that look at other characters are
  \<open>trim\<close>, \<open>\s\<close>, the dot of a regular expression and \<open>toLowerCase\<close>, and they are
  written out below on the whole range of \<^typ>\<open>char\<close>.
\<close>

definition is_digit :: "char \<Rightarrow> bool" where
  "is_digit c = (c \<in> set ''0123456789'')"

definition is_hex_lower :: "char \<Rightarrow> bool" where
  "is_hex_lower c = (c \<in> set ''0123456789abcdef'')"

definition is_hex :: "char \<Rightarrow> bool" where
  "is_hex c = (c \<in> set ''0123456789abcdefABCDEF'')"

definition is_line_terminator :: "char \<Rightarrow> bool" where
  "is_line_terminator c = (of_char c \<in> {10, 13 :: nat})"

definition is_space :: "char \<Rightarrow> bool" where
  "is_space c = (of_char c \<in> {9, 10, 11, 12, 13, 32, 160 :: nat})"

definition lower_char :: "char \<Rightarrow> char" where
  "lower_char c =
     (let n = (of_char c :: nat)
      in if (65 \<le> n \<and> n \<le> 90) \<or> (192 \<le> n \<and> n \<le> 222 \<and> n \<noteq> 215)
         then char_of (n + 32) else c)"

definition upper_ascii :: "char \<Rightarrow> char" where
  "upper_ascii c =
     (let n = (of_char c :: nat)
      in if 97 \<le> n \<and> n \<le> 122 then char_of (n - 32) else c)"

definition toLowerCase :: "string \<Rightarrow> string" where
  "toLowerCase s = map lower_char s"

definition trim :: "string \<Rightarrow> string" where
  "trim s = rev (dropWhile is_space (rev (dropWhile is_space s)))"

fun str_includes :: "string \<Rightarrow> string \<Rightarrow> bool" where
  "str_includes [] sub = (sub = [])"
| "str_includes (c # cs) sub = (prefix sub (c # cs) \<or> str_includes cs sub)"

function split_from :: "string \<Rightarrow> string \<Rightarrow> string \<Rightarrow> string list" where
  "split_from sep acc [] = [rev acc]"
| "split_from sep acc (c # cs) =
     (if sep \<noteq> [] \<and> prefix sep (c # cs)
      then rev acc # split_from sep [] (drop (length sep) (c # cs))
      else split_from sep (c # acc) cs)"
  by pat_completeness auto
termination
  by (relation "measure (\<lambda>(sep, acc, s). length s)") (auto simp: neq_Nil_conv)

definition split :: "string \<Rightarrow> string \<Rightarrow> string list" where
  "split s sep = split_from sep [] s"

section \<open>Regular expressions\<close>

datatype re =
    Eps
  | Sat "char \<Rightarrow> bool"
  | Seq re re
  | Alt re re
  | Star re
  | LazyStar re
  | Group nat re
  | Bol
  | Eol

record mstate =
  pos :: nat
  rest :: string
  caps :: "(nat \<times> string) list"

primrec iter_greedy :: "nat \<Rightarrow> (mstate \<Rightarrow> mstate list) \<Rightarrow> mstate \<Rightarrow> mstate list" where
  "iter_greedy 0 f st = [st]"
| "iter_greedy (Suc n) f st =
     concat (map (iter_greedy n f)
               (filter (\<lambda>st'. length (rest st') < length (rest st)) (f st))) @ [st]"

primrec iter_lazy :: "nat \<Rightarrow> (mstate \<Rightarrow> mstate list) \<Rightarrow> mstate \<Rightarrow> mstate list" where
  "iter_lazy 0 f st = [st]"
| "iter_lazy (Suc n) f st =
     st # concat (map (iter_lazy n f)
                    (filter (\<lambda>st'. length (rest st') < length (rest st)) (f st)))"

primrec matches :: "re \<Rightarrow> mstate \<Rightarrow> mstate list" where
  "matches Eps st = [st]"
| "matches (Sat p) st =
     (case rest st of
        [] \<Rightarrow> []
      | c # cs \<Rightarrow> if p c then [st\<lparr>pos := Suc (pos st), rest := cs\<rparr>] else [])"
| "matches (Seq r1 r2) st = concat (map (matches r2) (matches r1 st))"
| "matches (Alt r1 r2) st = matches r1 st @ matches r2 st"
| "matches (Star r) st = iter_greedy (length (rest st)) (matches r) st"
| "matches (LazyStar r) st = iter_lazy (length (rest st)) (matches r) st"
| "matches (Group n r) st =
     map (\<lambda>st'. st'\<lparr>caps := (n, take (pos st' - pos st) (rest st)) # caps st'\<rparr>)
       (matches r st)"
| "matches Bol st = (if pos st = 0 then [st] else [])"
| "matches Eol st = (if rest st = [] then [st] else [])"


text \<open>
  The state in which a match is tried at index \<open>i\<close>, where \<open>s\<close> is what is left of the
  input, and the state after \<open>k\<close> more code units have been consumed.
\<close>

definition start :: "nat \<Rightarrow> string \<Rightarrow> mstate" where
  "start i s = \<lparr>pos = i, rest = s, caps = []\<rparr>"

definition adv :: "nat \<Rightarrow> mstate \<Rightarrow> mstate" where
  "adv k st = st\<lparr>pos := pos st + k, rest := drop k (rest st)\<rparr>"

text \<open>
  The shorthands of the regular-expression syntax, as terms of \<^typ>\<open>re\<close>: a literal
  string, a literal under the \<open>i\<close> flag, \<open>r+\<close>, \<open>r?\<close> and \<open>r{n}\<close>.
\<close>

definition chr :: "char \<Rightarrow> re" where
  "chr c = Sat (\<lambda>d. d = c)"

definition lit :: "string \<Rightarrow> re" where
  "lit s = foldr (\<lambda>c r. Seq (chr c) r) s Eps"

definition lit_i :: "string \<Rightarrow> re" where
  "lit_i s = foldr (\<lambda>c r. Seq (Sat (\<lambda>d. upper_ascii d = upper_ascii c)) r) s Eps"

definition many1 :: "re \<Rightarrow> re" where
  "many1 r = Seq r (Star r)"

definition opt :: "re \<Rightarrow> re" where
  "opt r = Alt r Eps"

primrec rep :: "nat \<Rightarrow> re \<Rightarrow> re" where
  "rep 0 r = Eps"
| "rep (Suc n) r = Seq r (rep n r)"

text \<open>
  \<open>RegExp.prototype.exec\<close> of a regular expression without the \<open>g\<close> and \<open>y\<close> flags:
  the match is tried at index 0, 1, ... up to the length of the string, and the first
  index with a match gives the result; \<open>None\<close> is the \<open>null\<close> of the source.
\<close>

fun exec_from :: "re \<Rightarrow> nat \<Rightarrow> string \<Rightarrow> mstate option" where
  "exec_from r i [] =
     (case matches r (start i []) of
        [] \<Rightarrow> None
      | st # _ \<Rightarrow> Some st)"
| "exec_from r i (c # cs) =
     (case matches r (start i (c # cs)) of
        [] \<Rightarrow> exec_from r (Suc i) cs
      | st # _ \<Rightarrow> Some st)"

definition exec :: "re \<Rightarrow> string \<Rightarrow> mstate option" where
  "exec r s = exec_from r 0 s"

definition test :: "re \<Rightarrow> string \<Rightarrow> bool" where
  "test r s = (exec r s \<noteq> None)"

text \<open>
  \<open>match[n]\<close>: the text of capture group \<open>n\<close>; \<open>None\<close> is \<open>undefined\<close>, the value of
  a group that took no part in the match.
\<close>

definition group :: "nat \<Rightarrow> mstate \<Rightarrow> string option" where
  "group n m = map_of (caps m) n"

text \<open>
  \<open>String.prototype.replace\<close> with a regular expression under the \<open>g\<close> flag and a
  replacement free of \<open>$\<close> patterns: every match, found from left to right, is replaced;
  after an empty match the search moves on by one code unit.
\<close>

function replace_from :: "re \<Rightarrow> string \<Rightarrow> nat \<Rightarrow> string \<Rightarrow> string" where
  "replace_from r new i s =
     (case matches r (start i s) of
        [] \<Rightarrow> (case s of [] \<Rightarrow> [] | c # cs \<Rightarrow> c # replace_from r new (Suc i) cs)
      | st # _ \<Rightarrow>
          if length (rest st) < length s
          then new @ replace_from r new (pos st) (rest st)
          else (case s of [] \<Rightarrow> new | c # cs \<Rightarrow> new @ c # replace_from r new (Suc i) cs))"
  by pat_completeness auto
termination
  by (relation "measure (\<lambda>(r, new, i, s). length s)") auto

definition replace :: "string \<Rightarrow> re \<Rightarrow> string \<Rightarrow> string" where
  "replace s r new = replace_from r new 0 s"


section \<open>Numbers\<close>

text \<open>
  A Number of the host language is an IEEE 754 binary64 value. The finite ones are
  modelled by the rational they denote (the sign of zero is not kept), and every
  operation rounds its exact result to the nearest binary64 value, ties to even:
  53 bits of significand, subnormals below \<open>2\<^sup>-\<^sup>1\<^sup>0\<^sup>2\<^sup>2\<close>, overflow to infinity.
\<close>

datatype number = NaN | Infinity | MinusInfinity | Fin rat

function bits :: "int \<Rightarrow> int" where
  "bits n = (if n \<le> 0 then 0 else 1 + bits (n div 2))"
  by pat_completeness auto
termination
  by (relation "measure nat") auto

declare bits.simps [simp del]

definition round_half_even :: "int \<Rightarrow> int \<Rightarrow> int" where
  "round_half_even n d =
     (let q = n div d; r = n mod d
      in if 2 * r < d then q else if d < 2 * r then q + 1 else if even q then q else q + 1)"

definition scaled :: "int \<Rightarrow> int \<Rightarrow> int \<Rightarrow> int \<times> int" where
  "scaled n d e = (if e \<le> 0 then (n * 2 ^ nat (- e), d) else (n, d * 2 ^ nat e))"

text \<open>
  \<open>to_binary64 n d\<close> rounds the fraction \<open>n / d\<close> of two positive integers: \<open>e\<close> is the
  exponent of the unit in the last place, so that \<open>n / d / 2\<^sup>e\<close> lies in \<open>[2\<^sup>5\<^sup>2, 2\<^sup>5\<^sup>3)\<close>
  unless the value is subnormal, and \<open>m\<close> is the rounded significand.
\<close>

definition to_binary64 :: "int \<Rightarrow> int \<Rightarrow> number" where
  "to_binary64 n d =
     (if n = 0 then Fin 0
      else
        let e0 = bits n - bits d - 53;
            e1 = (if 2 ^ 53 * snd (scaled n d e0) \<le> fst (scaled n d e0) then e0 + 1 else e0);
            e = max e1 (- 1074);
            m = round_half_even (fst (scaled n d e)) (snd (scaled n d e))
        in if 0 \<le> e
           then (if 2 ^ 1024 \<le> m * 2 ^ nat e then Infinity else Fin (of_int (m * 2 ^ nat e)))
           else Fin (of_int m / of_int (2 ^ nat (- e))))"

definition negate :: "number \<Rightarrow> number" where
  "negate x = (case x of NaN \<Rightarrow> NaN | Infinity \<Rightarrow> MinusInfinity
               | MinusInfinity \<Rightarrow> Infinity | Fin q \<Rightarrow> Fin (- q))"

definition binary64 :: "rat \<Rightarrow> number" where
  "binary64 q =
     (let (n, d) = quotient_of q
      in if 0 \<le> n then to_binary64 n d else negate (to_binary64 (- n) d))"

definition is_negative :: "number \<Rightarrow> bool" where
  "is_negative x = (case x of MinusInfinity \<Rightarrow> True | Fin q \<Rightarrow> q < 0 | _ \<Rightarrow> False)"

text \<open>The operator \<open>*\<close> on Numbers.\<close>

definition times :: "number \<Rightarrow> number \<Rightarrow> number" where
  "times x y =
     (case (x, y) of
        (NaN, _) \<Rightarrow> NaN
      | (_, NaN) \<Rightarrow> NaN
      | (Fin a, Fin b) \<Rightarrow> binary64 (a * b)
      | _ \<Rightarrow> if x = Fin 0 \<or> y = Fin 0 then NaN
             else if is_negative x = is_negative y then Infinity else MinusInfinity)"

text \<open>
  \<open>Math.round\<close>: the nearest integer, a tie going towards \<open>+\<infinity>\<close>. The result is an
  integer of the same magnitude as its binary64 argument, hence a binary64 value.
\<close>

definition Math_round :: "number \<Rightarrow> number" where
  "Math_round x = (case x of Fin q \<Rightarrow> Fin (of_int \<lfloor>q + 1 / 2\<rfloor>) | _ \<Rightarrow> x)"

definition isNaN :: "number \<Rightarrow> bool" where
  "isNaN x = (x = NaN)"

definition digit_value :: "char \<Rightarrow> int" where
  "digit_value c =
     (let n = (of_char c :: int)
      in if 48 \<le> n \<and> n \<le> 57 then n - 48
         else if 97 \<le> n \<and> n \<le> 102 then n - 87
         else if 65 \<le> n \<and> n \<le> 70 then n - 55 else 0)"

definition digits_value :: "int \<Rightarrow> string \<Rightarrow> int" where
  "digits_value radix ds = foldl (\<lambda>acc c. acc * radix + digit_value c) 0 ds"

text \<open>
  \<open>parseFloat\<close>: leading white space is skipped, and the longest prefix that is a decimal
  literal (an optional sign, then \<open>Infinity\<close> or digits with an optional fraction and an
  optional exponent) gives the value; \<open>NaN\<close> when there is no such prefix.
\<close>

definition exponent_part :: "string \<Rightarrow> int" where
  "exponent_part s =
     (case s of
        [] \<Rightarrow> 0
      | c # cs \<Rightarrow>
          if c = CHR ''e'' \<or> c = CHR ''E''
          then (case cs of
                  [] \<Rightarrow> 0
                | d # ds \<Rightarrow>
                    if d = CHR ''-'' then - digits_value 10 (takeWhile is_digit ds)
                    else if d = CHR ''+'' then digits_value 10 (takeWhile is_digit ds)
                    else digits_value 10 (takeWhile is_digit cs))
          else 0)"

definition unsigned_decimal :: "string \<Rightarrow> number" where
  "unsigned_decimal s =
     (if prefix ''Infinity'' s then Infinity
      else
        let ip = takeWhile is_digit s;
            r1 = dropWhile is_digit s;
            dot = (r1 \<noteq> [] \<and> hd r1 = CHR ''.'');
            fp = (if dot then takeWhile is_digit (tl r1) else []);
            r2 = (if dot then dropWhile is_digit (tl r1) else r1);
            ex = exponent_part r2 - int (length fp);
            m = of_int (digits_value 10 (ip @ fp))
        in if ip = [] \<and> fp = [] then NaN
           else binary64 (if 0 \<le> ex then m * 10 ^ nat ex else m / 10 ^ nat (- ex)))"

definition parseFloat :: "string \<Rightarrow> number" where
  "parseFloat s =
     (case dropWhile is_space s of
        [] \<Rightarrow> NaN
      | c # cs \<Rightarrow>
          if c = CHR ''-'' then negate (unsigned_decimal cs)
          else if c = CHR ''+'' then unsigned_decimal cs
          else unsigned_decimal (c # cs))"

text \<open>
  \<open>parseInt\<close> with no radix argument: white space, an optional sign, an optional
  \<open>0x\<close> that selects radix 16, then the longest run of digits of the radix.
\<close>

definition unsigned_int :: "string \<Rightarrow> number" where
  "unsigned_int s =
     (if prefix ''0x'' s \<or> prefix ''0X'' s
      then (let ds = takeWhile is_hex (drop 2 s)
            in if ds = [] then NaN else binary64 (of_int (digits_value 16 ds)))
      else (let ds = takeWhile is_digit s
            in if ds = [] then NaN else binary64 (of_int (digits_value 10 ds))))"

definition parseInt :: "string \<Rightarrow> number" where
  "parseInt s =
     (case dropWhile is_space s of
        [] \<Rightarrow> NaN
      | c # cs \<Rightarrow>
          if c = CHR ''-'' then negate (unsigned_int cs)
          else if c = CHR ''+'' then unsigned_int cs
          else unsigned_int (c # cs))"


section \<open>The provider\<close>

subsection \<open>Data model and host capabilities\<close>

datatype error = TypeError | RangeError | FetchStatus nat | Thrown string

text \<open>
  \<open>AnimeTorrent\<close>, the record handed to the host. A field whose value the source reads
  out of a regular-expression match is a \<^typ>\<open>string option\<close>, \<open>None\<close> being
  \<open>undefined\<close>; \<open>isBatch\<close> is \<open>undefined\<close> in one of the two source files.
\<close>

record AnimeTorrent =
  name :: "string option"
  date :: string
  size :: number
  formattedSize :: string
  seeders :: int
  leechers :: int
  downloadCount :: int
  link :: "string option"
  downloadUrl :: string
  magnetLink :: "string option"
  infoHash :: string
  resolution :: string
  isBatch :: "bool option"
  episodeNumber :: number
  releaseGroup :: string
  isBestRelease :: bool
  confirmed :: bool

text \<open>The result of the title parser \<open>$habari.parse\<close>; each property may be absent.\<close>

record metadata =
  episode_number :: "string list option"
  video_resolution :: "string option"
  release_group :: "string option"

record response =
  ok :: bool
  status :: nat
  text_of :: string

text \<open>
  What the program takes from its environment: the network (\<open>fetch\<close>, which fails or
  returns a response), the title parser (which returns or throws), and the date
  arithmetic of the runtime: \<open>toISOString\<close> is the text of \<open>new Date(s).toISOString()\<close>,
  and \<open>None\<close> when \<open>s\<close> is no date, where the source raises a \<open>RangeError\<close>.
\<close>

record host =
  fetch :: "string \<Rightarrow> error + response"
  habari_parse :: "string \<Rightarrow> error + metadata"
  toISOString :: "string \<Rightarrow> string option"

subsection \<open>The regular expressions of the source\<close>

text \<open>\<^verbatim>\<open>/<[^>]*>/g\<close>\<close>

definition re_markup :: re where
  "re_markup = Seq (chr CHR ''<'') (Seq (Star (Sat (\<lambda>c. c \<noteq> CHR ''>''))) (chr CHR ''>''))"

text \<open>\<^verbatim>\<open>/<enclosure url="(magnet:[^"]+)"/\<close>\<close>

definition re_enclosure :: re where
  "re_enclosure =
     Seq (lit (''<enclosure url='' @ [CHR 0x22]))
       (Seq (Group 1 (Seq (lit ''magnet:'') (many1 (Sat (\<lambda>c. c \<noteq> CHR 0x22)))))
          (chr (CHR 0x22)))"

text \<open>\<^verbatim>\<open>/\d+(\.\d+)?\s*(KB|MB|GB|TB)/i\<close>\<close>

definition re_size :: re where
  "re_size =
     Seq (many1 (Sat is_digit))
       (Seq (opt (Group 1 (Seq (chr CHR ''.'') (many1 (Sat is_digit)))))
          (Seq (Star (Sat is_space))
             (Group 2 (Alt (lit_i ''KB'') (Alt (lit_i ''MB'') (Alt (lit_i ''GB'') (lit_i ''TB'')))))))"

text \<open>\<^verbatim>\<open>/^[a-f0-9]+$/i\<close>\<close>

definition re_hex :: re where
  "re_hex = Seq Bol (Seq (many1 (Sat is_hex)) Eol)"

text \<open>\<^verbatim>\<open>/urn:btih:([a-fA-F0-9]{40})/\<close>\<close>

definition re_btih :: re where
  "re_btih = Seq (lit ''urn:btih:'') (Group 1 (rep 40 (Sat is_hex)))"

text \<open>\<^verbatim>\<open>/[^0-9.]/g\<close>\<close>

definition re_not_numeric :: re where
  "re_not_numeric = Sat (\<lambda>c. \<not> is_digit c \<and> c \<noteq> CHR ''.'')"

text \<open>
  The two expressions that \<open>getTagContent\<close> builds from the tag name, the first with the
  \<open>s\<close> flag (the dot matches every code unit), the second without (the dot stops at a
  line terminator). The tag names of the program (\<open>title\<close>, \<open>link\<close>, \<open>pubDate\<close>,
  \<open>description\<close>) are letters, which stand for themselves in the pattern.
\<close>

definition re_cdata :: "string \<Rightarrow> re" where
  "re_cdata tagName =
     Seq (lit (''<'' @ tagName @ ''><![CDATA[''))
       (Seq (Group 1 (LazyStar (Sat (\<lambda>c. True))))
          (lit ('']]></'' @ tagName @ ''>'')))"

definition re_plain :: "string \<Rightarrow> re" where
  "re_plain tagName =
     Seq (lit (''<'' @ tagName @ ''>''))
       (Seq (Group 1 (LazyStar (Sat (\<lambda>c. \<not> is_line_terminator c))))
          (lit (''</'' @ tagName @ ''>'')))"

subsection \<open>Helpers\<close>

text \<open>A string is truthy when it is defined and not empty.\<close>

definition truthy :: "string option \<Rightarrow> bool" where
  "truthy v = (case v of None \<Rightarrow> False | Some s \<Rightarrow> s \<noteq> [])"

definition getTagContent :: "string \<Rightarrow> string \<Rightarrow> string option" where
  "getTagContent xml tagName =
     (let match = exec (re_cdata tagName) xml
      in if match \<noteq> None \<and> truthy (Option.bind match (group 1))
         then Option.bind match (group 1)
         else (case exec (re_plain tagName) xml of
                 Some fallbackMatch \<Rightarrow> group 1 fallbackMatch
               | None \<Rightarrow> Some []))"

text \<open>
  \<open>getHashFromMagnet\<close>; an \<open>undefined\<close> argument is converted to the string
  \<open>undefined\<close> by \<open>exec\<close>. The result \<open>None\<close> is \<open>null\<close> (or an \<open>undefined\<close> group).
\<close>

definition getHashFromMagnet :: "string option \<Rightarrow> string option" where
  "getHashFromMagnet magnet =
     (case exec re_btih (case magnet of Some m \<Rightarrow> m | None \<Rightarrow> ''undefined'') of
        Some match \<Rightarrow> group 1 match
      | None \<Rightarrow> None)"

definition parseSizeToBytes :: "string \<Rightarrow> number" where
  "parseSizeToBytes sizeStr =
     (if sizeStr = [] then Fin 0
      else
        let sizeLower = toLowerCase sizeStr;
            v = parseFloat (replace sizeStr re_not_numeric [])
        in if isNaN v then Fin 0
           else Math_round
                  (if str_includes sizeLower ''gb''
                   then times (times (times v (Fin 1024)) (Fin 1024)) (Fin 1024)
                   else if str_includes sizeLower ''mb'' then times (times v (Fin 1024)) (Fin 1024)
                   else if str_includes sizeLower ''kb'' then times v (Fin 1024)
                   else v))"


subsection \<open>Parsing one item (\<open>src/Acgnx.ts\<close>)\<close>

text \<open>
  The first loop of the item callback: \<open>formattedSize\<close> starts as \<open>"0 MB"\<close> and becomes the
  first trimmed part that the size pattern matches.
\<close>

fun scan_size :: "string list \<Rightarrow> string" where
  "scan_size [] = ''0 MB''"
| "scan_size (part # parts) =
     (if test re_size (trim part) then trim part else scan_size parts)"

text \<open>The second loop, entered with an empty \<open>infoHash\<close>.\<close>

fun scan_hash :: "string list \<Rightarrow> string" where
  "scan_hash [] = []"
| "scan_hash (part # parts) =
     (let trimmedPart = trim part
      in if length trimmedPart = 40 \<and> test re_hex trimmedPart then trimmedPart
         else scan_hash parts)"

definition or_empty :: "string option \<Rightarrow> string" where
  "or_empty v = (case v of Some s \<Rightarrow> s | None \<Rightarrow> [])"

text \<open>
  The description with its markup removed, split at the pipes; and the info hash, taken
  from the magnet link or else looked for among the parts.
\<close>

definition description_parts :: "string \<Rightarrow> string list" where
  "description_parts description =
     (let cleanedDescription = trim (replace description re_markup [])
      in split cleanedDescription ''|'')"

definition find_infoHash :: "string option \<Rightarrow> string list \<Rightarrow> string" where
  "find_infoHash magnet descriptionParts =
     (let hash = or_empty (getHashFromMagnet magnet)
      in if hash = [] then scan_hash descriptionParts else hash)"

definition episode_of :: "metadata \<Rightarrow> number" where
  "episode_of md =
     (case episode_number md of
        Some (e # es) \<Rightarrow> (let parsedEp = parseInt e in if \<not> isNaN parsedEp then parsedEp else Fin (- 1))
      | _ \<Rightarrow> Fin (- 1))"

definition enclosure_magnet :: "string \<Rightarrow> string option" where
  "enclosure_magnet itemXml =
     (case exec re_enclosure itemXml of
        Some magnetMatch \<Rightarrow> group 1 magnetMatch
      | None \<Rightarrow> Some [])"

text \<open>
  The body of the \<open>try\<close> block of the callback that \<open>parseTorrentsFromXml\<close> maps over the
  items: \<open>Inl\<close> is an exception that reaches the \<open>catch\<close>. A method call on \<open>undefined\<close>
  raises a \<open>TypeError\<close>, an invalid date a \<open>RangeError\<close>, and the title parser may throw.
\<close>

definition parseItem :: "host \<Rightarrow> string \<Rightarrow> error + AnimeTorrent" where
  "parseItem H itemXml =
     (case getTagContent itemXml ''title'' of
        None \<Rightarrow> Inl TypeError
      | Some title0 \<Rightarrow>
     (let title = trim (replace title0 re_markup []);
          link = getTagContent itemXml ''link'';
          pubDate = getTagContent itemXml ''pubDate''
      in case getTagContent itemXml ''description'' of
        None \<Rightarrow> Inl TypeError
      | Some description \<Rightarrow>
     (let magnetLink = enclosure_magnet itemXml;
          descriptionParts = description_parts description;
          formattedSize = scan_size descriptionParts;
          infoHash = find_infoHash magnetLink descriptionParts
      in case habari_parse H title of
        Inl e \<Rightarrow> Inl e
      | Inr md \<Rightarrow>
     (case Option.bind pubDate (toISOString H) of
        None \<Rightarrow> Inl RangeError
      | Some isoDate \<Rightarrow>
          Inr \<lparr> name = Some title,
                date = isoDate,
                size = parseSizeToBytes formattedSize,
                formattedSize = formattedSize,
                seeders = - 1,
                leechers = - 1,
                downloadCount = 0,
                link = link,
                downloadUrl = [],
                magnetLink = magnetLink,
                infoHash = toLowerCase infoHash,
                resolution = or_empty (video_resolution md),
                isBatch = Some (1 < (case episode_number md of Some es \<Rightarrow> length es | None \<Rightarrow> 0)),
                episodeNumber = episode_of md,
                releaseGroup = or_empty (release_group md),
                isBestRelease = False,
                confirmed = False \<rparr>))))"

text \<open>
  \<open>map\<close> with the \<open>try\<close>/\<open>catch\<close> of the callback (a caught exception gives \<open>null\<close>), then
  the \<open>filter\<close> that keeps what is not \<open>null\<close>.
\<close>

definition catch_null :: "error + 'a \<Rightarrow> 'a option" where
  "catch_null v = (case v of Inl e \<Rightarrow> None | Inr t \<Rightarrow> Some t)"

primrec not_null :: "'a option list \<Rightarrow> 'a list" where
  "not_null [] = []"
| "not_null (t # ts) = (case t of None \<Rightarrow> not_null ts | Some x \<Rightarrow> x # not_null ts)"

text \<open>\<open>split\<close> followed by \<open>shift\<close>: the fragments after each \<open><item>\<close> marker.\<close>

definition items_of :: "string \<Rightarrow> string list" where
  "items_of xml = drop 1 (split xml ''<item>'')"

definition parseTorrentsFromXml :: "host \<Rightarrow> string \<Rightarrow> AnimeTorrent list" where
  "parseTorrentsFromXml H xml =
     not_null (map (\<lambda>itemXml. catch_null (parseItem H itemXml)) (items_of xml))"

subsection \<open>Fetching\<close>

text \<open>
  The \<open>try\<close> block of \<open>fetchAndParseRss\<close>, and the method with its \<open>catch\<close>. The result of
  the method is the outcome of the promise it returns: \<open>Inl\<close> would be a rejection.
\<close>

definition fetchAndParseRss_try :: "host \<Rightarrow> string \<Rightarrow> error + AnimeTorrent list" where
  "fetchAndParseRss_try H url =
     (case fetch H url of
        Inl e \<Rightarrow> Inl e
      | Inr response \<Rightarrow>
          if \<not> ok response then Inl (FetchStatus (status response))
          else Inr (parseTorrentsFromXml H (text_of response)))"

definition fetchAndParseRss :: "host \<Rightarrow> string \<Rightarrow> error + AnimeTorrent list" where
  "fetchAndParseRss H url =
     (case fetchAndParseRss_try H url of
        Inl e \<Rightarrow> Inr []
      | Inr torrents \<Rightarrow> Inr torrents)"

definition api :: string where
  "api = ''https://share.acgnx.se/rss.xml''"

definition getLatest :: "host \<Rightarrow> error + AnimeTorrent list" where
  "getLatest H = fetchAndParseRss H api"

subsection \<open>The positional variant (the second source file)\<close>

text \<open>
  The second source file is the same class with an item callback that trusts the position
  of the parts of the description: the size is part 1, the hash is part 3. Its
  \<open>parseSizeToBytes\<close> sets an unparseable value to 0 and goes on.
\<close>

definition parseSizeToBytes_positional :: "string \<Rightarrow> number" where
  "parseSizeToBytes_positional sizeStr =
     (if sizeStr = [] then Fin 0
      else
        let sizeLower = toLowerCase sizeStr;
            v0 = parseFloat (replace sizeStr re_not_numeric []);
            v = (if isNaN v0 then Fin 0 else v0)
        in Math_round
             (if str_includes sizeLower ''gb''
              then times (times (times v (Fin 1024)) (Fin 1024)) (Fin 1024)
              else if str_includes sizeLower ''mb'' then times (times v (Fin 1024)) (Fin 1024)
              else if str_includes sizeLower ''kb'' then times v (Fin 1024)
              else v))"

definition parseItem_positional :: "host \<Rightarrow> string \<Rightarrow> error + AnimeTorrent" where
  "parseItem_positional H itemXml =
     (let title = getTagContent itemXml ''title'';
          link = getTagContent itemXml ''link'';
          pubDate = getTagContent itemXml ''pubDate''
      in case getTagContent itemXml ''description'' of
        None \<Rightarrow> Inl TypeError
      | Some descriptionHtml \<Rightarrow>
     (let magnetLink = enclosure_magnet itemXml;
          descriptionParts = split descriptionHtml ''|'';
          formattedSize = (if 1 < length descriptionParts then trim (descriptionParts ! 1) else ''0'');
          infoHash = (if 3 < length descriptionParts then trim (descriptionParts ! 3)
                      else or_empty (getHashFromMagnet magnetLink))
      in case Option.bind pubDate (toISOString H) of
        None \<Rightarrow> Inl RangeError
      | Some isoDate \<Rightarrow>
          Inr \<lparr> name = title,
                date = isoDate,
                size = parseSizeToBytes_positional formattedSize,
                formattedSize = formattedSize,
                seeders = 0,
                leechers = 0,
                downloadCount = 0,
                link = link,
                downloadUrl = [],
                magnetLink = magnetLink,
                infoHash = toLowerCase infoHash,
                resolution = [],
                isBatch = None,
                episodeNumber = Fin (- 1),
                releaseGroup = [],
                isBestRelease = False,
                confirmed = False \<rparr>))"

definition parseTorrentsFromXml_positional :: "host \<Rightarrow> string \<Rightarrow> AnimeTorrent list" where
  "parseTorrentsFromXml_positional H xml =
     not_null (map (\<lambda>itemXml. catch_null (parseItem_positional H itemXml)) (items_of xml))"


section \<open>Vocabulary of the claims\<close>

text \<open>
  A 40-hex-character \<open>urn:btih:\<close> value begins at the head of \<open>s\<close>: the literal, then
  at least 40 more code units, the first 40 of them hexadecimal digits.
\<close>

definition btih_here :: "string \<Rightarrow> bool" where
  "btih_here s = (prefix ''urn:btih:'' s \<and> 49 \<le> length s \<and> (\<forall>c \<in> set (take 40 (drop 9 s)). is_hex c))"

text \<open>
  The patterns of the source, as scanners over the string. \<open>scan_first f s\<close> is the value
  of \<open>f\<close> at the first suffix of \<open>s\<close> where it is defined, the way \<open>exec\<close> tries one index
  after the other.
\<close>

definition first_of :: "'a list \<Rightarrow> 'a option" where
  "first_of xs = (case xs of [] \<Rightarrow> None | x # _ \<Rightarrow> Some x)"

fun scan_first :: "(string \<Rightarrow> 'a option) \<Rightarrow> string \<Rightarrow> 'a option" where
  "scan_first f [] = f []"
| "scan_first f (c # cs) = (case f (c # cs) of Some x \<Rightarrow> Some x | None \<Rightarrow> scan_first f cs)"

text \<open>
  \<open>until l p s\<close>: the text before the first occurrence of the literal \<open>l\<close> in \<open>s\<close>, when
  all of it is in the class \<open>p\<close>.
\<close>

fun until :: "string \<Rightarrow> (char \<Rightarrow> bool) \<Rightarrow> string \<Rightarrow> string option" where
  "until l p [] = (if l = [] then Some [] else None)"
| "until l p (c # cs) =
     (if prefix l (c # cs) then Some []
      else if p c then map_option (\<lambda>t. c # t) (until l p cs)
      else None)"

text \<open>
  The two patterns of \<open>getTagContent\<close> at the head of a string: the opening literal, then
  the shortest text that is followed by the closing literal. The result is the text.
\<close>

definition between :: "string \<Rightarrow> (char \<Rightarrow> bool) \<Rightarrow> string \<Rightarrow> string \<Rightarrow> string option" where
  "between opening p closing s =
     (if prefix opening s then until closing p (drop (length opening) s) else None)"

definition cdata_here :: "string \<Rightarrow> string \<Rightarrow> string option" where
  "cdata_here tagName =
     between (''<'' @ tagName @ ''><![CDATA['') (\<lambda>c. True) ('']]></'' @ tagName @ ''>'')"

definition plain_here :: "string \<Rightarrow> string \<Rightarrow> string option" where
  "plain_here tagName =
     between (''<'' @ tagName @ ''>'') (\<lambda>c. \<not> is_line_terminator c) (''</'' @ tagName @ ''>'')"

text \<open>
  The enclosure pattern at the head of a string: the opening literal and the scheme, then
  the longest run of code units other than the quote, which is not empty and is followed
  by a quote. The result is the scheme and the run: the magnet link.
\<close>

definition quoted_here :: "string \<Rightarrow> string \<Rightarrow> char \<Rightarrow> string \<Rightarrow> string option" where
  "quoted_here opening scheme q s =
     (if prefix (opening @ scheme) s
      then (let r = drop (length (opening @ scheme)) s;
                run = takeWhile (\<lambda>c. c \<noteq> q) r
            in if run \<noteq> [] \<and> length run < length r then Some (scheme @ run) else None)
      else None)"

definition magnet_here :: "string \<Rightarrow> string option" where
  "magnet_here = quoted_here (''<enclosure url='' @ [CHR 0x22]) ''magnet:'' (CHR 0x22)"

text \<open>
  The 40 hexadecimal digits of a \<open>urn:btih:\<close> value that begins at the head of \<open>s\<close>; the
  first such value of a magnet link \<open>m\<close> is \<open>scan_first btih_value m\<close>. A part of the
  description is a hash when it is exactly 40 hexadecimal digits.
\<close>

definition btih_value :: "string \<Rightarrow> string option" where
  "btih_value s = (if btih_here s then Some (take 40 (drop 9 s)) else None)"

definition is_hash40 :: "string \<Rightarrow> bool" where
  "is_hash40 p = (length p = 40 \<and> list_all is_hex p)"

section \<open>An example feed\<close>

text \<open>
  A host and a feed on which the program is run below. The title parser finds nothing and
  one date string is a date. The feed has a header and three items: a full one, one
  without a date, and one that has only a date.
\<close>

definition example_magnet :: string where
  "example_magnet = ''magnet:?xt=urn:btih:ABCDEF0123456789ABCDEF0123456789ABCDEF01''"

definition example_item :: string where
  "example_item =
     ''<title>A <b>1</b></title><pubDate>2024-01-01</pubDate>'' @
     ''<description>x | 1.5GB | y</description>'' @
     ''<enclosure url='' @ [CHR 0x22] @ example_magnet @ [CHR 0x22] @ ''/>''"

definition example_feed :: string where
  "example_feed =
     ''<rss><item>'' @ example_item @
     ''<item><title>B</title>'' @
     ''<item><pubDate>2024-01-01</pubDate>''"

definition example_host :: host where
  "example_host =
     \<lparr> fetch = (\<lambda>url. Inr \<lparr>ok = True, status = 200, text_of = example_feed\<rparr>),
       habari_parse = (\<lambda>title. Inr \<lparr>episode_number = None, video_resolution = None,
                                      release_group = None\<rparr>),
       toISOString = (\<lambda>s. if s = ''2024-01-01'' then Some ''2024-01-01T00:00:00.000Z'' else None) \<rparr>"

definition example_torrent :: AnimeTorrent where
  "example_torrent =
     \<lparr> name = Some ''A 1'', date = ''2024-01-01T00:00:00.000Z'', size = Fin 1610612736,
       formattedSize = ''1.5GB'', seeders = - 1, leechers = - 1, downloadCount = 0,
       link = Some [], downloadUrl = [], magnetLink = Some example_magnet,
       infoHash = ''abcdef0123456789abcdef0123456789abcdef01'', resolution = [],
       isBatch = Some False, episodeNumber = Fin (- 1), releaseGroup = [],
       isBestRelease = False, confirmed = False \<rparr>"

definition bare_torrent :: AnimeTorrent where
  "bare_torrent =
     \<lparr> name = Some [], date = ''2024-01-01T00:00:00.000Z'', size = Fin 0,
       formattedSize = ''0 MB'', seeders = - 1, leechers = - 1, downloadCount = 0,
       link = Some [], downloadUrl = [], magnetLink = Some [],
       infoHash = [], resolution = [],
       isBatch = Some False, episodeNumber = Fin (- 1), releaseGroup = [],
       isBestRelease = False, confirmed = False \<rparr>"

text \<open>
  Two more items: one whose magnet link carries two \<open>urn:btih:\<close> values, and one whose
  description has four parts, the last of them not a hash.
\<close>

definition two_hash_magnet :: string where
  "two_hash_magnet =
     ''magnet:?xt=urn:btih:0000000000000000000000000000000000000000'' @
     ''&xt=urn:btih:ABCDEF0123456789ABCDEF0123456789ABCDEF01''"

definition two_hash_item :: string where
  "two_hash_item =
     ''<pubDate>2024-01-01</pubDate>'' @
     ''<enclosure url='' @ [CHR 0x22] @ two_hash_magnet @ [CHR 0x22] @ ''/>''"

definition four_part_item :: string where
  "four_part_item =
     ''<pubDate>2024-01-01</pubDate><description>a|1.5GB|b|c</description>'' @
     ''<enclosure url='' @ [CHR 0x22] @ example_magnet @ [CHR 0x22] @ ''/>''"

text \<open>
  An item whose description has no size, and two hosts whose network fails: one with an
  exception, one with status 404.
\<close>

definition no_size_item :: string where
  "no_size_item = ''<pubDate>2024-01-01</pubDate><description>x | 15 | GB</description>''"

definition offline_host :: host where
  "offline_host = example_host\<lparr>fetch := (\<lambda>url. Inl (Thrown ''network error''))\<rparr>"

definition not_found_host :: host where
  "not_found_host =
     example_host\<lparr>fetch := (\<lambda>url. Inr \<lparr>ok = False, status = 404, text_of = example_feed\<rparr>)\<rparr>"

section \<open>Properties of the regular-expression matcher\<close>

subsection \<open>Literals, classes and repetition\<close>

lemma adv_simps [simp]:
  "pos (adv k st) = pos st + k" "rest (adv k st) = drop k (rest st)" "caps (adv k st) = caps st"
  by (simp_all add: adv_def)

lemma adv_0 [simp]: "adv 0 st = st"
  by (simp add: adv_def)

lemma adv_adv [simp]: "adv k (adv j st) = adv (j + k) st"
  by (simp add: adv_def add.commute)

lemma matches_Sat:
  "matches (Sat p) st = (if rest st \<noteq> [] \<and> p (hd (rest st)) then [adv 1 st] else [])"
  by (cases "rest st") (simp_all add: adv_def)

declare matches.simps(2) [simp del]

lemma lit_Nil: "lit [] = Eps"
  by (simp add: lit_def)

lemma lit_Cons: "lit (c # l) = Seq (chr c) (lit l)"
  by (simp add: lit_def)

lemma matches_lit:
  "matches (lit l) st = (if prefix l (rest st) then [adv (length l) st] else [])"
proof (induction l arbitrary: st)
  case Nil
  show ?case by (simp add: lit_Nil)
next
  case (Cons c l)
  show ?case
  proof (cases "rest st")
    case Nil
    then show ?thesis by (simp add: lit_Cons chr_def matches_Sat)
  next
    case (Cons d ds)
    then show ?thesis
      using Cons.IH [of "adv 1 st"] by (auto simp: lit_Cons chr_def matches_Sat)
  qed
qed

lemma lit_i_Nil: "lit_i [] = Eps"
  by (simp add: lit_i_def)

lemma lit_i_Cons:
  "lit_i (c # l) = Seq (Sat (\<lambda>d. upper_ascii d = upper_ascii c)) (lit_i l)"
  by (simp add: lit_i_def)

lemma matches_lit_i:
  "matches (lit_i l) st =
     (if length l \<le> length (rest st) \<and> map upper_ascii (take (length l) (rest st)) = map upper_ascii l
      then [adv (length l) st] else [])"
proof (induction l arbitrary: st)
  case Nil
  show ?case by (simp add: lit_i_Nil)
next
  case (Cons c l)
  show ?case
  proof (cases "rest st")
    case Nil
    then show ?thesis by (simp add: lit_i_Cons matches_Sat)
  next
    case (Cons d ds)
    then show ?thesis
      using Cons.IH [of "adv 1 st"] by (auto simp: lit_i_Cons matches_Sat)
  qed
qed

lemma matches_rep_Sat:
  "matches (rep n (Sat p)) st =
     (if n \<le> length (rest st) \<and> (\<forall>c \<in> set (take n (rest st)). p c)
      then [adv n st] else [])"
proof (induction n arbitrary: st)
  case 0
  show ?case by simp
next
  case (Suc n)
  show ?case
  proof (cases "rest st")
    case Nil
    then show ?thesis by (simp add: matches_Sat)
  next
    case (Cons d ds)
    then show ?thesis
      using Suc.IH [of "adv 1 st"] by (auto simp: matches_Sat)
  qed
qed

lemma iter_greedy_Sat:
  "length (takeWhile p (rest st)) \<le> n \<Longrightarrow>
   iter_greedy n (matches (Sat p)) st =
     map (\<lambda>k. adv k st) (rev [0..<Suc (length (takeWhile p (rest st)))])"
proof (induction n arbitrary: st)
  case 0
  then show ?case by simp
next
  case (Suc n)
  show ?case
  proof (cases "rest st \<noteq> [] \<and> p (hd (rest st))")
    case False
    then have "takeWhile p (rest st) = []" by (cases "rest st") auto
    moreover have "matches (Sat p) st = []" using False by (auto simp: matches_Sat)
    ultimately show ?thesis by simp
  next
    case True
    then obtain c cs where r: "rest st = c # cs" and pc: "p c"
      by (cases "rest st") auto
    have le: "length (takeWhile p (rest (adv 1 st))) \<le> n"
      using Suc.prems r pc by simp
    have "matches (Sat p) st = [adv 1 st]" using r pc by (simp add: matches_Sat)
    then have "iter_greedy (Suc n) (matches (Sat p)) st = iter_greedy n (matches (Sat p)) (adv 1 st) @ [st]"
      using r by simp
    also have "\<dots> = map (\<lambda>k. adv k (adv 1 st)) (rev [0..<Suc (length (takeWhile p cs))]) @ [st]"
      using Suc.IH [OF le] r by simp
    also have "\<dots> = map (\<lambda>k. adv k st) (rev [0..<Suc (length (takeWhile p (rest st)))])"
    proof -
      have "map (\<lambda>k. adv k (adv 1 st)) (rev [0..<Suc m]) @ [st] = map (\<lambda>k. adv k st) (rev [0..<Suc (Suc m)])" for m
        by (induction m) (simp_all add: )
      then show ?thesis using r pc by simp
    qed
    finally show ?thesis .
  qed
qed

lemma matches_Star_Sat:
  "matches (Star (Sat p)) st =
     map (\<lambda>k. adv k st) (rev [0..<Suc (length (takeWhile p (rest st)))])"
  by (simp add: iter_greedy_Sat length_takeWhile_le del: upt_Suc)


lemma matches_many1_Sat:
  "matches (many1 (Sat p)) st =
     map (\<lambda>k. adv k st) (rev [1..<Suc (length (takeWhile p (rest st)))])"
proof (cases "rest st \<noteq> [] \<and> p (hd (rest st))")
  case False
  then have "takeWhile p (rest st) = []" by (cases "rest st") auto
  moreover have "matches (Sat p) st = []" using False by (auto simp: matches_Sat)
  ultimately show ?thesis by (simp add: many1_def)
next
  case True
  then obtain c cs where r: "rest st = c # cs" and pc: "p c"
    by (cases "rest st") auto
  have "matches (many1 (Sat p)) st = matches (Star (Sat p)) (adv 1 st)"
    using r pc by (simp add: many1_def matches_Sat)
  also have "\<dots> = map (\<lambda>k. adv k (adv 1 st)) (rev [0..<Suc (length (takeWhile p cs))])"
    using r by (simp only: matches_Star_Sat adv_simps) simp
  also have "\<dots> = map (\<lambda>k. adv k st) (map Suc (rev [0..<Suc (length (takeWhile p cs))]))"
    by (simp add: comp_def)
  also have "map Suc (rev [0..<Suc (length (takeWhile p cs))]) = rev [1..<Suc (Suc (length (takeWhile p cs)))]"
    by (simp only: rev_map [symmetric] map_Suc_upt) simp
  finally show ?thesis using r pc by simp
qed

lemma mem_matches_Star_Sat:
  "st' \<in> set (matches (Star (Sat p)) st) \<longleftrightarrow>
     (\<exists>k. k \<le> length (takeWhile p (rest st)) \<and> st' = adv k st)"
  by (simp only: matches_Star_Sat) (auto simp del: upt_Suc simp: less_Suc_eq_le)

lemma mem_matches_many1_Sat:
  "st' \<in> set (matches (many1 (Sat p)) st) \<longleftrightarrow>
     (\<exists>k. 1 \<le> k \<and> k \<le> length (takeWhile p (rest st)) \<and> st' = adv k st)"
  by (simp only: matches_many1_Sat) (auto simp del: upt_Suc simp: less_Suc_eq_le)

lemma mem_matches_Seq:
  "st'' \<in> set (matches (Seq a b) st) \<longleftrightarrow>
     (\<exists>st'. st' \<in> set (matches a st) \<and> st'' \<in> set (matches b st'))"
  by auto

subsection \<open>The first match\<close>

lemma start_simps [simp]:
  "pos (start i s) = i" "rest (start i s) = s" "caps (start i s) = []"
  by (simp_all add: start_def)

lemma exec_from_None:
  "exec_from r i s = None \<longleftrightarrow> (\<forall>k \<le> length s. matches r (start (i + k) (drop k s)) = [])"
proof (induction s arbitrary: i)
  case Nil
  show ?case by (simp split: list.splits)
next
  case (Cons c cs)
  have "(\<forall>k \<le> length (c # cs). matches r (start (i + k) (drop k (c # cs))) = []) \<longleftrightarrow>
        matches r (start i (c # cs)) = [] \<and>
        (\<forall>k \<le> length cs. matches r (start (Suc i + k) (drop k cs)) = [])"
    (is "?L \<longleftrightarrow> ?R")
  proof
    assume l: ?L
    have "matches r (start i (c # cs)) = []" using l [rule_format, of 0] by simp
    moreover have "matches r (start (Suc i + k) (drop k cs)) = []" if "k \<le> length cs" for k
      using l [rule_format, of "Suc k"] that by simp
    ultimately show ?R by blast
  next
    assume rr: ?R
    show ?L
    proof (intro allI impI)
      fix k assume "k \<le> length (c # cs)"
      then show "matches r (start (i + k) (drop k (c # cs))) = []"
        using rr by (cases k) auto
    qed
  qed
  then show ?case
    using Cons.IH [of "Suc i"] by (simp split: list.splits)
qed

lemma exec_from_Some:
  "exec_from r i s = Some m \<Longrightarrow>
     \<exists>k \<le> length s. (\<exists>ms. matches r (start (i + k) (drop k s)) = m # ms) \<and>
        (\<forall>j < k. matches r (start (i + j) (drop j s)) = [])"
proof (induction s arbitrary: i)
  case Nil
  then show ?case by (auto split: list.splits)
next
  case (Cons c cs)
  show ?case
  proof (cases "matches r (start i (c # cs))")
    case Nil
    then have "exec_from r (Suc i) cs = Some m"
      using Cons.prems by simp
    from Cons.IH [OF this] obtain k ms where k: "k \<le> length cs"
      "matches r (start (Suc i + k) (drop k cs)) = m # ms"
      "\<forall>j < k. matches r (start (Suc i + j) (drop j cs)) = []"
      by blast
    have "\<forall>j < Suc k. matches r (start (i + j) (drop j (c # cs))) = []"
    proof (intro allI impI)
      fix j assume "j < Suc k"
      then show "matches r (start (i + j) (drop j (c # cs))) = []"
        using k(3) Nil by (cases j) auto
    qed
    then show ?thesis
      using k(1,2) by (intro exI [of _ "Suc k"]) auto
  next
    case (Cons a as)
    then have "m = a" using Cons.prems by simp
    then show ?thesis using Cons by (intro exI [of _ 0]) auto
  qed
qed

lemma exec_fromI:
  assumes "k \<le> length s" "matches r (start (i + k) (drop k s)) = m # ms"
    "\<And>j. j < k \<Longrightarrow> matches r (start (i + j) (drop j s)) = []"
  shows "exec_from r i s = Some m"
proof (cases "exec_from r i s")
  case None
  then show ?thesis using assms(1,2) by (simp add: exec_from_None)
next
  case (Some m')
  from exec_from_Some [OF this] obtain k' ms' where k': "k' \<le> length s"
    "matches r (start (i + k') (drop k' s)) = m' # ms'"
    "\<forall>j < k'. matches r (start (i + j) (drop j s)) = []"
    by blast
  have "k' = k"
  proof (rule ccontr)
    assume "k' \<noteq> k"
    then consider "k' < k" | "k < k'" by linarith
    then show False
    proof cases
      case 1 then show ?thesis using assms(3) k'(2) by simp
    next
      case 2 then show ?thesis using k'(3) assms(2) by simp
    qed
  qed
  then show ?thesis using Some k'(2) assms(2) by simp
qed



section \<open>Properties of the patterns of the source\<close>

subsection \<open>The info hash of a magnet link\<close>

lemma matches_re_btih:
  "matches re_btih st =
     (if btih_here (rest st)
      then [(adv 49 st)\<lparr>caps := (1, take 40 (drop 9 (rest st))) # caps st\<rparr>]
      else [])"
proof -
  have l9: "length ''urn:btih:'' = 9" by simp
  have m1: "matches (lit ''urn:btih:'') st = (if prefix ''urn:btih:'' (rest st) then [adv 9 st] else [])"
    by (simp only: matches_lit l9)
  have m2: "matches (rep 40 (Sat is_hex)) (adv 9 st) =
      (if 49 \<le> length (rest st) \<and> (\<forall>c \<in> set (take 40 (drop 9 (rest st))). is_hex c)
       then [adv 49 st] else [])"
  proof -
    have "(40 \<le> length (rest st) - 9) = (49 \<le> length (rest st))" by linarith
    then show ?thesis by (simp add: matches_rep_Sat)
  qed
  show ?thesis
    unfolding re_btih_def matches.simps m1
    by (cases "prefix ''urn:btih:'' (rest st)") (simp_all add: m2 btih_here_def)
qed

lemma group_caps [simp]: "group n (st\<lparr>caps := (n, t) # cs\<rparr>) = Some t"
  by (simp add: group_def)

lemma exec_re_btih_Some_iff:
  "Option.bind (exec re_btih m) (group 1) = Some h \<longleftrightarrow>
     (\<exists>i \<le> length m. btih_here (drop i m) \<and> (\<forall>j < i. \<not> btih_here (drop j m)) \<and>
        h = take 40 (drop (i + 9) m))"
  (is "?L \<longleftrightarrow> ?R")
proof
  assume ?L
  then obtain st where ex: "exec_from re_btih 0 m = Some st" and g: "group 1 st = Some h"
    by (auto simp: exec_def Option.bind_eq_Some_conv)
  from exec_from_Some [OF ex] obtain k ms where k: "k \<le> length m"
    "matches re_btih (start (0 + k) (drop k m)) = st # ms"
    "\<forall>j < k. matches re_btih (start (0 + j) (drop j m)) = []"
    by blast
  have here: "btih_here (drop k m)" and st: "st = (adv 49 (start k (drop k m)))\<lparr>caps := [(1, take 40 (drop 9 (drop k m)))]\<rparr>"
    using k(2) by (auto simp: matches_re_btih split: if_splits)
  have "h = take 40 (drop (k + 9) m)"
    using g st by (simp add: add.commute)
  moreover have "\<forall>j < k. \<not> btih_here (drop j m)"
    using k(3) by (auto simp: matches_re_btih split: if_splits)
  ultimately show ?R using k(1) here by blast
next
  assume ?R
  then obtain i where i: "i \<le> length m" "btih_here (drop i m)"
    "\<forall>j < i. \<not> btih_here (drop j m)" "h = take 40 (drop (i + 9) m)"
    by blast
  have "exec_from re_btih 0 m = Some ((adv 49 (start i (drop i m)))\<lparr>caps := [(1, take 40 (drop 9 (drop i m)))]\<rparr>)"
    using i(1,2,3) by (intro exec_fromI [of i]) (auto simp: matches_re_btih)
  then show ?L using i(4) by (simp add: exec_def add.commute)
qed

lemma exec_re_btih_None_iff:
  "Option.bind (exec re_btih m) (group 1) = None \<longleftrightarrow> (\<forall>i \<le> length m. \<not> btih_here (drop i m))"
proof (cases "exec re_btih m")
  case None
  then have "\<forall>k \<le> length m. matches re_btih (start (0 + k) (drop k m)) = []"
    by (simp add: exec_def exec_from_None)
  then have "\<forall>k \<le> length m. \<not> btih_here (drop k m)"
    by (auto simp: matches_re_btih split: if_splits)
  then show ?thesis using None by simp
next
  case (Some st)
  from exec_from_Some [OF Some [unfolded exec_def]] obtain k ms where k: "k \<le> length m"
    "matches re_btih (start (0 + k) (drop k m)) = st # ms"
    by blast
  then have "btih_here (drop k m)" "group 1 st \<noteq> None"
    by (auto simp: matches_re_btih split: if_splits)
  then show ?thesis using Some k(1) by auto
qed

lemma btih_here_hex:
  "btih_here s \<Longrightarrow> length (take 40 (drop 9 s)) = 40 \<and> (\<forall>c \<in> set (take 40 (drop 9 s)). is_hex c)"
  by (auto simp: btih_here_def)

lemma getHashFromMagnet_hex:
  assumes "getHashFromMagnet magnet = Some h"
  shows "length h = 40 \<and> (\<forall>c \<in> set h. is_hex c)"
proof -
  define m where "m = (case magnet of Some m \<Rightarrow> m | None \<Rightarrow> ''undefined'')"
  have "Option.bind (exec re_btih m) (group 1) = Some h"
    using assms by (simp add: getHashFromMagnet_def m_def split: option.splits)
  then obtain i where "btih_here (drop i m)" "h = take 40 (drop (i + 9) m)"
    unfolding exec_re_btih_Some_iff by blast
  then show ?thesis using btih_here_hex [of "drop i m"] by (simp add: add.commute)
qed

subsection \<open>The hexadecimal pattern\<close>

lemma exec_from_Bol:
  "0 < i \<Longrightarrow> exec_from (Seq Bol r) i s = None"
  by (simp add: exec_from_None)

lemma test_re_hex: "test re_hex s \<longleftrightarrow> s \<noteq> [] \<and> (\<forall>c \<in> set s. is_hex c)"
proof -
  have fil: "concat (map (matches Eol) xs) = filter (\<lambda>st. rest st = []) xs" for xs
    by (induction xs) auto
  have "test re_hex s \<longleftrightarrow> matches re_hex (start 0 s) \<noteq> []"
  proof (cases s)
    case Nil
    then show ?thesis by (simp add: test_def exec_def split: list.splits)
  next
    case (Cons c cs)
    have "exec_from re_hex (Suc 0) cs = None"
      unfolding re_hex_def by (rule exec_from_Bol) simp
    then show ?thesis using Cons by (simp add: test_def exec_def split: list.splits)
  qed
  also have "\<dots> \<longleftrightarrow> (\<exists>st \<in> set (matches (many1 (Sat is_hex)) (start 0 s)). rest st = [])"
    by (simp add: re_hex_def fil filter_empty_conv del: upt_Suc)
  also have "\<dots> \<longleftrightarrow> (\<exists>k. 1 \<le> k \<and> k \<le> length (takeWhile is_hex s) \<and> length s \<le> k)"
    unfolding mem_matches_many1_Sat Bex_def by auto
  also have "\<dots> \<longleftrightarrow> s \<noteq> [] \<and> length (takeWhile is_hex s) = length s"
    using length_takeWhile_le [of is_hex s] by (cases s) (auto intro: exI [of _ "length s"])
  also have "length (takeWhile is_hex s) = length s \<longleftrightarrow> (\<forall>c \<in> set s. is_hex c)"
    by (metis takeWhile_eq_all_conv length_takeWhile_le takeWhile_eq_take take_all_iff order_refl)
  finally show ?thesis .
qed

subsection \<open>Lazy repetition and the first state\<close>

lemma iter_lazy_Sat:
  "length (takeWhile p (rest st)) \<le> n \<Longrightarrow>
   iter_lazy n (matches (Sat p)) st =
     map (\<lambda>k. adv k st) [0..<Suc (length (takeWhile p (rest st)))]"
proof (induction n arbitrary: st)
  case 0
  then show ?case by simp
next
  case (Suc n)
  show ?case
  proof (cases "rest st \<noteq> [] \<and> p (hd (rest st))")
    case False
    then have "takeWhile p (rest st) = []" by (cases "rest st") auto
    moreover have "matches (Sat p) st = []" using False by (auto simp: matches_Sat)
    ultimately show ?thesis by simp
  next
    case True
    then obtain c cs where r: "rest st = c # cs" and pc: "p c"
      by (cases "rest st") auto
    have le: "length (takeWhile p (rest (adv 1 st))) \<le> n"
      using Suc.prems r pc by simp
    have "matches (Sat p) st = [adv 1 st]" using r pc by (simp add: matches_Sat)
    then have "iter_lazy (Suc n) (matches (Sat p)) st = st # iter_lazy n (matches (Sat p)) (adv 1 st)"
      using r by simp
    also have "\<dots> = st # map (\<lambda>k. adv k (adv 1 st)) [0..<Suc (length (takeWhile p cs))]"
      using Suc.IH [OF le] r by simp
    also have "\<dots> = adv 0 st # map (\<lambda>k. adv k st) (map Suc [0..<Suc (length (takeWhile p cs))])"
      by (simp add: comp_def)
    also have "\<dots> = map (\<lambda>k. adv k st) [0..<Suc (Suc (length (takeWhile p cs)))]"
      by (simp only: map_Suc_upt upt_conv_Cons [of 0 "Suc (Suc _)"] list.map)
    finally show ?thesis using r pc by simp
  qed
qed

lemma matches_LazyStar_Sat:
  "matches (LazyStar (Sat p)) st =
     map (\<lambda>k. adv k st) [0..<Suc (length (takeWhile p (rest st)))]"
  by (simp add: iter_lazy_Sat length_takeWhile_le del: upt_Suc)

lemma first_of_simps [simp]:
  "first_of [] = None" "first_of (x # xs) = Some x"
  by (simp_all add: first_of_def)

lemma first_of_append: "first_of (xs @ ys) = (case first_of xs of Some x \<Rightarrow> Some x | None \<Rightarrow> first_of ys)"
  by (cases xs) simp_all

lemma exec_from_first_of:
  "exec_from r i s =
     (case first_of (matches r (start i s)) of
        Some st \<Rightarrow> Some st
      | None \<Rightarrow> (case s of [] \<Rightarrow> None | c # cs \<Rightarrow> exec_from r (Suc i) cs))"
  by (cases s; cases "matches r (start i s)") simp_all

lemma exec_group_scan:
  assumes "\<And>i s. map_option (group n) (first_of (matches r (start i s))) = map_option Some (f s)"
  shows "Option.bind (exec_from r i s) (group n) = scan_first f s"
proof (induction s arbitrary: i)
  case Nil
  have e: "exec_from r i [] = first_of (matches r (start i []))"
    by (cases "matches r (start i [])") simp_all
  show ?case
    unfolding e using assms [of i "[]"]
    by (cases "first_of (matches r (start i []))"; cases "f []") simp_all
next
  case (Cons c cs)
  have e: "exec_from r i (c # cs) =
      (case first_of (matches r (start i (c # cs))) of
         Some st \<Rightarrow> Some st | None \<Rightarrow> exec_from r (Suc i) cs)"
    by (cases "matches r (start i (c # cs))") simp_all
  show ?case
    unfolding e using assms [of i "c # cs"] Cons.IH [of "Suc i"]
    by (cases "first_of (matches r (start i (c # cs)))"; cases "f (c # cs)") simp_all
qed

lemma exec_None_scan:
  assumes "\<And>i s. (first_of (matches r (start i s)) = None) = (f s = None)"
  shows "(exec_from r i s = None) = (scan_first f s = None)"
proof (induction s arbitrary: i)
  case Nil
  have e: "exec_from r i [] = first_of (matches r (start i []))"
    by (cases "matches r (start i [])") simp_all
  show ?case
    unfolding e using assms [of i "[]"]
    by (cases "first_of (matches r (start i []))"; cases "f []") simp_all
next
  case (Cons c cs)
  have e: "exec_from r i (c # cs) =
      (case first_of (matches r (start i (c # cs))) of
         Some st \<Rightarrow> Some st | None \<Rightarrow> exec_from r (Suc i) cs)"
    by (cases "matches r (start i (c # cs))") simp_all
  show ?case
    unfolding e using assms [of i "c # cs"] Cons.IH [of "Suc i"]
    by (cases "first_of (matches r (start i (c # cs)))"; cases "f (c # cs)") simp_all
qed

lemma until_take: "until l p s = Some t \<Longrightarrow> take (length t) s = t"
  by (induction s arbitrary: t) (auto split: if_splits)

lemma first_of_candidates:
  "first_of (concat (map (\<lambda>k. if prefix l (drop k s) then [F k] else [])
       [0..<Suc (length (takeWhile p s))])) =
   map_option (\<lambda>t. F (length t)) (until l p s)"
proof (induction s arbitrary: F)
  case Nil
  show ?case by simp
next
  case (Cons c cs)
  show ?case
  proof (cases "prefix l (c # cs)")
    case True
    then show ?thesis by (simp add: upt_conv_Cons del: upt_Suc)
  next
    case np: False
    show ?thesis
    proof (cases "p c")
      case False
      then show ?thesis using np by simp
    next
      case True
      have "[0..<Suc (length (takeWhile p (c # cs)))] = 0 # map Suc [0..<Suc (length (takeWhile p cs))]"
        using True by (simp only: map_Suc_upt) (simp add: upt_conv_Cons del: upt_Suc)
      then show ?thesis
        using np True Cons.IH [of "\<lambda>k. F (Suc k)"]
        by (simp add: comp_def option.map_comp del: upt_Suc)
    qed
  qed
qed

lemma adv_caps: "adv j ((adv k st)\<lparr>caps := c\<rparr>) = (adv (k + j) st)\<lparr>caps := c\<rparr>"
  by (simp add: adv_def ac_simps)

lemma first_lazy_until:
  "first_of (matches (Seq (Group n (LazyStar (Sat p))) (lit l)) st) =
     map_option (\<lambda>t. (adv (length t + length l) st)\<lparr>caps := (n, t) # caps st\<rparr>)
       (until l p (rest st))"
proof -
  let ?F = "\<lambda>k. (adv (k + length l) st)\<lparr>caps := (n, take k (rest st)) # caps st\<rparr>"
  have "matches (Seq (Group n (LazyStar (Sat p))) (lit l)) st =
      concat (map (\<lambda>k. if prefix l (drop k (rest st)) then [?F k] else [])
        [0..<Suc (length (takeWhile p (rest st)))])"
  proof -
    have "matches (Group n (LazyStar (Sat p))) st =
        map (\<lambda>k. (adv k st)\<lparr>caps := (n, take k (rest st)) # caps st\<rparr>)
          [0..<Suc (length (takeWhile p (rest st)))]"
      unfolding matches.simps(7) matches_LazyStar_Sat by (simp add: comp_def del: upt_Suc)
    then show ?thesis
      unfolding matches.simps(3) by (simp add: matches_lit comp_def adv_caps del: upt_Suc cong: if_cong)
  qed
  then have "first_of (matches (Seq (Group n (LazyStar (Sat p))) (lit l)) st) =
      map_option (\<lambda>t. ?F (length t)) (until l p (rest st))"
    by (simp only: first_of_candidates)
  also have "\<dots> = map_option (\<lambda>t. (adv (length t + length l) st)\<lparr>caps := (n, t) # caps st\<rparr>)
       (until l p (rest st))"
    by (rule option.map_cong) (auto simp: until_take)
  finally show ?thesis .
qed

lemma first_between:
  "map_option (group n)
     (first_of (matches (Seq (lit opening) (Seq (Group n (LazyStar (Sat p))) (lit closing))) (start i s))) =
   map_option Some (between opening p closing s)"
proof (cases "prefix opening s")
  case False
  then show ?thesis by (simp add: matches_lit between_def)
next
  case True
  then have "matches (Seq (lit opening) (Seq (Group n (LazyStar (Sat p))) (lit closing))) (start i s) =
      matches (Seq (Group n (LazyStar (Sat p))) (lit closing)) (adv (length opening) (start i s))"
    by (simp add: matches_lit)
  then show ?thesis
    using True by (simp only: first_lazy_until) (simp add: between_def option.map_comp comp_def)
qed

lemma exec_group_defined:
  assumes "\<And>i s. map_option (group n) (first_of (matches r (start i s))) = map_option Some (f s)"
    and "exec_from r i s = Some m"
  shows "group n m \<noteq> None"
proof -
  from exec_from_Some [OF assms(2)] obtain k ms where
    "matches r (start (i + k) (drop k s)) = m # ms" by blast
  then show ?thesis using assms(1) [of "i + k" "drop k s"] by (cases "f (drop k s)") auto
qed

lemma exec_re_cdata:
  "Option.bind (exec (re_cdata tagName) xml) (group 1) = scan_first (cdata_here tagName) xml"
  unfolding exec_def re_cdata_def cdata_here_def
  by (rule exec_group_scan) (rule first_between)

lemma exec_re_plain:
  "Option.bind (exec (re_plain tagName) xml) (group 1) = scan_first (plain_here tagName) xml"
  unfolding exec_def re_plain_def plain_here_def
  by (rule exec_group_scan) (rule first_between)

lemma getTagContent_scan:
  "getTagContent xml tagName =
     (let content = scan_first (cdata_here tagName) xml
      in if truthy content then content
         else (case scan_first (plain_here tagName) xml of
                 Some text \<Rightarrow> Some text
               | None \<Rightarrow> Some []))"
proof -
  have c: "truthy (Option.bind (exec (re_cdata tagName) xml) (group 1)) \<Longrightarrow> exec (re_cdata tagName) xml \<noteq> None"
    by (cases "exec (re_cdata tagName) xml") (simp_all add: truthy_def)
  have p: "(case exec (re_plain tagName) xml of Some m \<Rightarrow> group 1 m | None \<Rightarrow> Some []) =
      (case scan_first (plain_here tagName) xml of Some text \<Rightarrow> Some text | None \<Rightarrow> Some [])"
  proof (cases "exec (re_plain tagName) xml")
    case None
    then show ?thesis using exec_re_plain [of tagName xml] by simp
  next
    case (Some m)
    have "group 1 m \<noteq> None"
      using Some unfolding exec_def re_plain_def
      by (rule exec_group_defined [rotated]) (rule first_between)
    then show ?thesis using exec_re_plain [of tagName xml] Some by (auto split: option.splits)
  qed
  have g: "getTagContent xml tagName =
      (if truthy (Option.bind (exec (re_cdata tagName) xml) (group 1))
       then Option.bind (exec (re_cdata tagName) xml) (group 1)
       else (case exec (re_plain tagName) xml of Some m \<Rightarrow> group 1 m | None \<Rightarrow> Some []))"
    using c by (auto simp: getTagContent_def Let_def)
  show ?thesis
    unfolding g exec_re_cdata p Let_def by simp
qed

subsection \<open>The enclosure pattern\<close>

declare matches.simps [simp del]

lemma concat_rev_candidates:
  assumes "\<And>k. k < m \<Longrightarrow> g k = []"
  shows "concat (map g (rev [a..<Suc m])) = (if a \<le> m then g m else [])"
proof -
  have "concat (map g (rev [a..<m])) = []"
    using assms by (auto simp: concat_eq_Nil_conv)
  then show ?thesis by simp
qed

lemma matches_chr_drop:
  "rest st = drop k s \<Longrightarrow>
   matches (chr c) st = (if k < length s \<and> s ! k = c then [adv 1 st] else [])"
  by (auto simp: chr_def matches_Sat hd_drop_conv_nth)

lemma nth_takeWhile_run:
  "k < length (takeWhile p s) \<Longrightarrow> p (s ! k)"
  by (metis nth_mem set_takeWhileD takeWhile_nth)

lemma prefix_append_drop:
  "prefix (a @ b) s \<longleftrightarrow> prefix a s \<and> prefix b (drop (length a) s)"
  by (auto simp: prefix_def)

lemma matches_lit_Seq:
  "matches (Seq (lit l) r) st = (if prefix l (rest st) then matches r (adv (length l) st) else [])"
  unfolding matches.simps(3) matches_lit by simp

lemma matches_class_then_excluded:
  assumes "\<And>k. rest (G k) = drop k r"
  shows "concat (map (\<lambda>k. matches (chr c) (G k)) (rev [a..<Suc (length (takeWhile (\<lambda>x. x \<noteq> c) r))])) =
     (if a \<le> length (takeWhile (\<lambda>x. x \<noteq> c) r) \<and> length (takeWhile (\<lambda>x. x \<noteq> c) r) < length r
      then [adv 1 (G (length (takeWhile (\<lambda>x. x \<noteq> c) r)))] else [])"
proof -
  let ?m = "length (takeWhile (\<lambda>x. x \<noteq> c) r)"
  have g: "matches (chr c) (G k) = (if k < length r \<and> r ! k = c then [adv 1 (G k)] else [])" for k
    by (rule matches_chr_drop) (rule assms)
  have none: "matches (chr c) (G k) = []" if "k < ?m" for k
    using nth_takeWhile_run [of k "\<lambda>x. x \<noteq> c" r] that by (simp add: g)
  have "r ! ?m = c" if "?m < length r"
    using nth_length_takeWhile [of "\<lambda>x. x \<noteq> c" r] that by simp
  then have last: "matches (chr c) (G ?m) = (if ?m < length r then [adv 1 (G ?m)] else [])"
    by (simp add: g)
  show ?thesis
    by (simp only: concat_rev_candidates [of ?m "\<lambda>k. matches (chr c) (G k)" a, OF none] last)
      (simp del: upt_Suc)
qed


lemma matches_group_lit_many1:
  "matches (Group n (Seq (lit l) (many1 (Sat p)))) st =
     (if prefix l (rest st)
      then map (\<lambda>k. (adv (length l + k) st)\<lparr>caps := (n, take (length l + k) (rest st)) # caps st\<rparr>)
             (rev [1..<Suc (length (takeWhile p (drop (length l) (rest st))))])
      else [])"
  unfolding matches.simps(7) matches_lit_Seq matches_many1_Sat
  by (simp add: comp_def adv_def ac_simps del: upt_Suc)

lemma first_quoted:
  "map_option (group n)
     (first_of (matches (Seq (lit opening) (Seq (Group n (Seq (lit scheme) (many1 (Sat (\<lambda>c. c \<noteq> q))))) (chr q)))
        (start i s))) =
   map_option Some (quoted_here opening scheme q s)"
proof (cases "prefix (opening @ scheme) s")
  case False
  have "matches (Seq (lit opening) (Seq (Group n (Seq (lit scheme) (many1 (Sat (\<lambda>c. c \<noteq> q))))) (chr q)))
        (start i s) = []"
  proof (cases "prefix opening s")
    case no: False
    show ?thesis by (simp only: matches_lit_Seq) (simp add: no)
  next
    case True
    with False have "\<not> prefix scheme (rest (adv (length opening) (start i s)))"
      by (simp add: prefix_append_drop)
    then have "matches (Group n (Seq (lit scheme) (many1 (Sat (\<lambda>c. c \<noteq> q))))) (adv (length opening) (start i s)) = []"
      by (simp only: matches_group_lit_many1 if_False)
    then show ?thesis
      by (simp only: matches_lit_Seq matches.simps(3) [of "Group _ _"]) simp
  qed
  then show ?thesis using False by (simp add: quoted_here_def)
next
  case True
  then have pA: "prefix opening s" and pM: "prefix scheme (drop (length opening) s)"
    by (simp_all add: prefix_append_drop)
  define r where "r = drop (length (opening @ scheme)) s"
  define m where "m = length (takeWhile (\<lambda>c. c \<noteq> q) r)"
  define st1 where "st1 = adv (length opening) (start i s)"
  define G where "G = (\<lambda>k. (adv (length scheme + k) st1)\<lparr>caps := (n, take (length scheme + k) (rest st1)) # caps st1\<rparr>)"
  have rG: "rest (G k) = drop k r" for k
    by (simp add: G_def st1_def r_def ac_simps)
  have "matches (Seq (lit opening) (Seq (Group n (Seq (lit scheme) (many1 (Sat (\<lambda>c. c \<noteq> q))))) (chr q)))
        (start i s) = concat (map (\<lambda>k. matches (chr q) (G k)) (rev [1..<Suc m]))"
  proof -
    have "matches (Seq (lit opening) (Seq (Group n (Seq (lit scheme) (many1 (Sat (\<lambda>c. c \<noteq> q))))) (chr q)))
        (start i s) = concat (map (matches (chr q)) (matches (Group n (Seq (lit scheme) (many1 (Sat (\<lambda>c. c \<noteq> q))))) st1))"
      using pA by (simp only: matches_lit_Seq matches.simps(3) [of "Group _ _"] st1_def) simp
    moreover have "matches (Group n (Seq (lit scheme) (many1 (Sat (\<lambda>c. c \<noteq> q))))) st1 = map G (rev [1..<Suc m])"
    proof -
      have "prefix scheme (rest st1)" using pM by (simp add: st1_def)
      moreover have "drop (length scheme) (rest st1) = r" by (simp add: st1_def r_def ac_simps)
      ultimately show ?thesis
        by (simp only: matches_group_lit_many1 G_def m_def if_True)
    qed
    ultimately show ?thesis by (simp add: comp_def del: upt_Suc)
  qed
  also have "\<dots> = (if 1 \<le> m \<and> m < length r then [adv 1 (G m)] else [])"
    unfolding m_def by (rule matches_class_then_excluded) (rule rG)
  finally have ms: "matches (Seq (lit opening) (Seq (Group n (Seq (lit scheme) (many1 (Sat (\<lambda>c. c \<noteq> q))))) (chr q)))
        (start i s) = (if 1 \<le> m \<and> m < length r then [adv 1 (G m)] else [])" .
  have cap: "take (length scheme + m) (rest st1) = scheme @ takeWhile (\<lambda>c. c \<noteq> q) r"
  proof -
    have "take (length scheme) (drop (length opening) s) = scheme"
      using pM by (auto simp: prefix_def)
    moreover have "take (length scheme + m) (drop (length opening) s) =
        take (length scheme) (drop (length opening) s) @ take m (drop (length scheme) (drop (length opening) s))"
      by (rule take_add)
    moreover have "take m r = takeWhile (\<lambda>c. c \<noteq> q) r"
      unfolding m_def by (rule takeWhile_eq_take [symmetric])
    ultimately show ?thesis by (simp add: r_def st1_def ac_simps)
  qed
  have "(takeWhile (\<lambda>c. c \<noteq> q) r \<noteq> [] \<and> length (takeWhile (\<lambda>c. c \<noteq> q) r) < length r) = (1 \<le> m \<and> m < length r)"
    by (auto simp: m_def Suc_le_eq)
  then have "quoted_here opening scheme q s =
      (if 1 \<le> m \<and> m < length r then Some (scheme @ takeWhile (\<lambda>c. c \<noteq> q) r) else None)"
    using True unfolding quoted_here_def Let_def r_def [symmetric] by simp
  moreover have "group n (adv 1 (G m)) = Some (scheme @ takeWhile (\<lambda>c. c \<noteq> q) r)"
    by (simp add: G_def group_def adv_def cap)
  ultimately show ?thesis by (simp add: ms)
qed

lemma matches_re_enclosure:
  "map_option (group 1) (first_of (matches re_enclosure (start i s))) = map_option Some (magnet_here s)"
  unfolding re_enclosure_def magnet_here_def by (rule first_quoted)

lemma enclosure_magnet_scan:
  "enclosure_magnet itemXml =
     (case scan_first magnet_here itemXml of Some m \<Rightarrow> Some m | None \<Rightarrow> Some [])"
proof (cases "exec re_enclosure itemXml")
  case None
  then have "scan_first magnet_here itemXml = None"
    using exec_group_scan [of 1 re_enclosure magnet_here 0 itemXml, OF matches_re_enclosure]
    by (simp add: exec_def)
  then show ?thesis using None by (simp add: enclosure_magnet_def)
next
  case (Some m)
  then have "group 1 m \<noteq> None"
    unfolding exec_def by (rule exec_group_defined [rotated]) (rule matches_re_enclosure)
  then show ?thesis
    using Some exec_group_scan [of 1 re_enclosure magnet_here 0 itemXml, OF matches_re_enclosure]
    by (auto simp: enclosure_magnet_def exec_def)
qed

lemma enclosure_magnet_defined: "enclosure_magnet itemXml \<noteq> None"
  by (simp add: enclosure_magnet_scan split: option.splits)

lemma getTagContent_defined: "getTagContent xml tagName \<noteq> None"
  by (auto simp: getTagContent_scan Let_def truthy_def split: option.splits)

subsection \<open>The info hash\<close>

lemma first_re_btih:
  "map_option (group 1) (first_of (matches re_btih (start i s))) = map_option Some (btih_value s)"
  by (simp add: matches_re_btih btih_value_def)

lemma getHashFromMagnet_scan:
  "getHashFromMagnet magnet =
     scan_first btih_value (case magnet of Some m \<Rightarrow> m | None \<Rightarrow> ''undefined'')"
proof -
  define m where "m = (case magnet of Some m \<Rightarrow> m | None \<Rightarrow> ''undefined'')"
  have "getHashFromMagnet magnet = Option.bind (exec re_btih m) (group 1)"
    by (simp add: getHashFromMagnet_def m_def Option.bind_def split: option.splits)
  also have "\<dots> = scan_first btih_value m"
    unfolding exec_def by (rule exec_group_scan) (rule first_re_btih)
  finally show ?thesis by (simp add: m_def)
qed

lemma scan_hash_find:
  "scan_hash parts = (case find is_hash40 (map trim parts) of Some p \<Rightarrow> p | None \<Rightarrow> [])"
proof (induction parts)
  case Nil
  show ?case by simp
next
  case (Cons part parts)
  have "(length (trim part) = 40 \<and> test re_hex (trim part)) = is_hash40 (trim part)"
    by (auto simp: test_re_hex is_hash40_def list_all_iff)
  then show ?case using Cons.IH by (simp add: Let_def)
qed

lemma scan_first_btih_hex:
  "scan_first btih_value m = Some h \<Longrightarrow> is_hash40 h"
  by (induction m) (auto simp: btih_value_def btih_here_def is_hash40_def list_all_iff split: if_splits)

lemma find_infoHash_spec:
  "find_infoHash (Some m) parts =
     (case scan_first btih_value m of
        Some h \<Rightarrow> h
      | None \<Rightarrow> (case find is_hash40 (map trim parts) of Some p \<Rightarrow> p | None \<Rightarrow> []))"
proof (cases "scan_first btih_value m")
  case None
  then show ?thesis
    by (simp add: find_infoHash_def getHashFromMagnet_scan or_empty_def scan_hash_find)
next
  case (Some h)
  then have "h \<noteq> []" using scan_first_btih_hex [OF Some] by (auto simp: is_hash40_def)
  then show ?thesis
    using Some by (simp add: find_infoHash_def getHashFromMagnet_scan or_empty_def)
qed

lemma lower_char_hex_table:
  "list_all (\<lambda>c. is_hex_lower (lower_char c)) ''0123456789abcdefABCDEF''"
  by code_simp

lemma lower_char_hex: "is_hex c \<Longrightarrow> is_hex_lower (lower_char c)"
  using lower_char_hex_table unfolding is_hex_def list_all_iff by blast

lemma toLowerCase_hash40:
  "is_hash40 h \<Longrightarrow> length (toLowerCase h) = 40 \<and> list_all is_hex_lower (toLowerCase h)"
  by (auto simp: is_hash40_def toLowerCase_def list_all_iff lower_char_hex)

lemma find_infoHash_hash40:
  "find_infoHash (Some m) parts = [] \<or> is_hash40 (find_infoHash (Some m) parts)"
proof (cases "scan_first btih_value m")
  case (Some h)
  then show ?thesis using scan_first_btih_hex [OF Some] by (simp add: find_infoHash_spec)
next
  case None
  show ?thesis
  proof (cases "find is_hash40 (map trim parts)")
    case n: None
    then show ?thesis using None by (simp add: find_infoHash_spec)
  next
    case (Some p)
    then have "is_hash40 p" by (auto simp: find_Some_iff)
    then show ?thesis using None Some by (simp add: find_infoHash_spec)
  qed
qed

subsection \<open>The item callback\<close>

lemma parseItem_Inr:
  assumes "parseItem H itemXml = Inr t"
  obtains title0 description md isoDate where
    "getTagContent itemXml ''title'' = Some title0"
    "getTagContent itemXml ''description'' = Some description"
    "habari_parse H (trim (replace title0 re_markup [])) = Inr md"
    "Option.bind (getTagContent itemXml ''pubDate'') (toISOString H) = Some isoDate"
    "name t = Some (trim (replace title0 re_markup []))"
    "magnetLink t = enclosure_magnet itemXml"
    "formattedSize t = scan_size (description_parts description)"
    "size t = parseSizeToBytes (scan_size (description_parts description))"
    "infoHash t = toLowerCase (find_infoHash (enclosure_magnet itemXml) (description_parts description))"
  using assms unfolding parseItem_def Let_def
  by (auto split: option.splits sum.splits)

lemma not_null_set: "set (not_null xs) = {x. Some x \<in> set xs}"
  by (induction xs) (auto split: option.splits)

lemma parseTorrentsFromXml_set:
  "t \<in> set (parseTorrentsFromXml H xml) \<longleftrightarrow> (\<exists>itemXml \<in> set (items_of xml). parseItem H itemXml = Inr t)"
proof -
  have "(Some t = catch_null (parseItem H itemXml)) = (parseItem H itemXml = Inr t)" for itemXml
    by (cases "parseItem H itemXml") (auto simp: catch_null_def)
  then show ?thesis
    by (auto simp: parseTorrentsFromXml_def not_null_set image_iff)
qed

section \<open>The program on the example feed\<close>

declare getTagContent_scan [code]
declare enclosure_magnet_scan [code]

lemma items_of_example_feed:
  "items_of example_feed = [example_item, ''<title>B</title>'', ''<pubDate>2024-01-01</pubDate>'']"
  by code_simp

lemma parseItem_example_item: "parseItem example_host example_item = Inr example_torrent"
  by code_simp

lemma parseItem_no_date: "parseItem example_host ''<title>B</title>'' = Inl RangeError"
  by code_simp

lemma parseItem_bare: "parseItem example_host ''<pubDate>2024-01-01</pubDate>'' = Inr bare_torrent"
  by code_simp

lemma parseTorrentsFromXml_example_feed:
  "parseTorrentsFromXml example_host example_feed = [example_torrent, bare_torrent]"
  by (simp add: parseTorrentsFromXml_def items_of_example_feed parseItem_example_item
      parseItem_no_date parseItem_bare catch_null_def)

lemma parseItem_two_hash_item:
  "map_sum id (\<lambda>t. (magnetLink t, infoHash t)) (parseItem example_host two_hash_item) =
     Inr (Some two_hash_magnet, ''0000000000000000000000000000000000000000'')"
  by code_simp

lemma parseItem_positional_four_part_item:
  "map_sum id (\<lambda>t. (magnetLink t, infoHash t)) (parseItem_positional example_host four_part_item) =
     Inr (Some example_magnet, ''c'')"
  by code_simp

lemma scan_first_here: "f s = Some x \<Longrightarrow> scan_first f s = Some x"
  by (cases s) simp_all

lemma scan_first_skip:
  "(\<And>j. j < length pre \<Longrightarrow> f (drop j (pre @ s)) = None) \<Longrightarrow>
   scan_first f (pre @ s) = scan_first f s"
proof (induction pre)
  case Nil
  show ?case by simp
next
  case (Cons c pre)
  have "f (c # pre @ s) = None" using Cons.prems [of 0] by simp
  moreover have "scan_first f (pre @ s) = scan_first f s"
  proof (rule Cons.IH)
    fix j assume "j < length pre"
    then show "f (drop j (pre @ s)) = None" using Cons.prems [of "Suc j"] by simp
  qed
  ultimately show ?case by simp
qed

lemma btih_here_literal:
  "length h = 40 \<Longrightarrow> list_all is_hex h \<Longrightarrow> btih_value (''urn:btih:'' @ h @ post) = Some h"
  by (simp add: btih_value_def btih_here_def list_all_iff)

lemma parseItem_no_size_item:
  "map_sum id (\<lambda>t. (formattedSize t, size t)) (parseItem example_host no_size_item) =
     Inr (''0 MB'', Fin 0)"
  by code_simp

lemma parseItem_positional_no_size_item:
  "map_sum id (\<lambda>t. (formattedSize t, size t)) (parseItem_positional example_host no_size_item) =
     Inr (''15'', Fin 15)"
  by code_simp

lemma description_no_size_item:
  "getTagContent no_size_item ''description'' = Some ''x | 15 | GB''"
  by code_simp

lemma parts_no_size_item:
  "description_parts ''x | 15 | GB'' = [''x '', '' 15 '', '' GB'']"
  by code_simp

lemma parts_unmatched:
  "list_all (\<lambda>part. \<not> test re_size (trim part)) [''x '', '' 15 '', '' GB'']"
  by code_simp

subsection \<open>Splitting\<close>

lemma str_includes_iff: "str_includes s sub \<longleftrightarrow> (\<exists>pre post. s = pre @ sub @ post)"
proof (induction s)
  case Nil
  show ?case by auto
next
  case (Cons c cs)
  show ?case
  proof
    assume "str_includes (c # cs) sub"
    then consider "prefix sub (c # cs)" | "str_includes cs sub" by auto
    then show "\<exists>pre post. c # cs = pre @ sub @ post"
    proof cases
      case 1
      then obtain post where "c # cs = sub @ post" by (auto simp: prefix_def)
      then have "c # cs = [] @ sub @ post" by simp
      then show ?thesis by blast
    next
      case 2
      then obtain pre post where "cs = pre @ sub @ post" using Cons.IH by blast
      then have "c # cs = (c # pre) @ sub @ post" by simp
      then show ?thesis by blast
    qed
  next
    assume "\<exists>pre post. c # cs = pre @ sub @ post"
    then obtain pre post where d: "c # cs = pre @ sub @ post" by blast
    show "str_includes (c # cs) sub"
    proof (cases pre)
      case Nil
      then have "prefix sub (c # cs)" using d by (simp add: prefix_def)
      then show ?thesis by simp
    next
      case (Cons a pre')
      then have "cs = pre' @ sub @ post" using d by simp
      then show ?thesis using Cons.IH by auto
    qed
  qed
qed

lemma split_from_no_separator:
  "\<not> str_includes s sep \<Longrightarrow> split_from sep acc s = [rev acc @ s]"
proof (induction s arbitrary: acc)
  case Nil
  show ?case by simp
next
  case (Cons c cs)
  then have "\<not> prefix sep (c # cs)" and "\<not> str_includes cs sep" by auto
  then show ?case using Cons.IH [of "c # acc"] by simp
qed

lemma items_of_no_marker:
  "\<not> str_includes xml ''<item>'' \<Longrightarrow> items_of xml = []"
  by (simp add: items_of_def split_def split_from_no_separator)

lemma length_not_null: "length (not_null xs) \<le> length xs"
  by (induction xs) (auto split: option.splits)

lemma not_null_results:
  "map Inr (not_null (map (\<lambda>x. catch_null (f x)) xs)) = filter (\<lambda>r. \<not> isl r) (map f xs)"
proof (induction xs)
  case Nil
  show ?case by simp
next
  case (Cons x xs)
  then show ?case by (cases "f x") (simp_all add: catch_null_def)
qed

lemma scan_size_default:
  "list_all (\<lambda>part. \<not> test re_size (trim part)) parts \<Longrightarrow> scan_size parts = ''0 MB''"
  by (induction parts) simp_all

lemma parseSizeToBytes_default: "parseSizeToBytes ''0 MB'' = Fin 0"
  by code_simp

lemma fetch_offline: "fetch offline_host url = Inl (Thrown ''network error'')"
  by (simp add: offline_host_def)

lemma fetch_not_found:
  "fetch not_found_host url = Inr \<lparr>ok = False, status = 404, text_of = example_feed\<rparr>"
  by (simp add: not_found_host_def)

lemma fetch_example:
  "fetch example_host url = Inr \<lparr>ok = True, status = 200, text_of = example_feed\<rparr>"
  by (simp add: example_host_def)

section \<open>The claims\<close>

subsection \<open>Size strings\<close>

text \<open>
  C1 (as stated): \<open>parseSizeToBytes("467.5GB")\<close> is 502078838374. It is not: the number
  parsed is 467.5, and 467.5 times \<open>1024\<^sup>3\<close> is 501974302720, an integer.
\<close>

theorem parseSizeToBytes_467_5GB_not_502078838374:
  "parseSizeToBytes ''467.5GB'' \<noteq> Fin 502078838374"
  by code_simp

text \<open>
  C1 (amended): \<open>parseSizeToBytes("1.5GB")\<close> is 1610612736 and
  \<open>parseSizeToBytes("467.5GB")\<close> is 501974302720, each the numeric value times \<open>1024\<^sup>3\<close>
  rounded to the nearest integer.
\<close>

theorem parseSizeToBytes_round_trip:
  "parseSizeToBytes ''1.5GB'' = Fin 1610612736 \<and>
   Math_round (Fin (15 / 10 * 1024 ^ 3)) = Fin 1610612736 \<and>
   parseSizeToBytes ''467.5GB'' = Fin 501974302720 \<and>
   Math_round (Fin (4675 / 10 * 1024 ^ 3)) = Fin 501974302720"
  by code_simp

text \<open>
  C2: a size string is scaled by its binary unit, \<open>TB\<close> by \<open>1024\<^sup>4\<close>. The size pattern
  of the item callback accepts \<open>TB\<close> as a unit, but \<open>parseSizeToBytes\<close> has no branch for
  it in either source file: \<open>"2TB"\<close> is passed through as 2 bytes.
\<close>

theorem parseSizeToBytes_TB_unscaled:
  "test re_size ''2TB'' \<and>
   parseSizeToBytes ''2TB'' = Fin 2 \<and>
   parseSizeToBytes_positional ''2TB'' = Fin 2 \<and>
   Fin 2 \<noteq> Fin (2 * 1024 ^ 4)"
  by code_simp

subsection \<open>The tag extractor\<close>

text \<open>
  C7: the content of a CDATA-wrapped tag is returned whenever the CDATA pattern matches.
  When the CDATA section is empty the pattern matches with an empty group, the test
  \<open>match && match[1]\<close> fails, and the plain pattern returns the CDATA wrapper itself as
  the content.
\<close>

theorem getTagContent_empty_cdata:
  "Option.bind (exec (re_cdata ''title'') ''<title><![CDATA[]]></title>'') (group 1) = Some [] \<and>
   getTagContent ''<title><![CDATA[]]></title>'' ''title'' = Some ''<![CDATA[]]>''"
  by code_simp

subsection \<open>The info hash\<close>

text \<open>
  C3 (as stated): for every fragment the info hash is taken from the magnet link first and
  from a 40-digit hexadecimal part of the description otherwise. The positional variant
  of the callback takes part 3 of a description of four parts whatever it is, before it
  looks at the magnet link: here the magnet link has a hash and the record's is \<open>c\<close>.
\<close>

theorem positional_infoHash_is_part_3:
  "map_sum id (\<lambda>t. (magnetLink t, infoHash t)) (parseItem_positional example_host four_part_item) =
     Inr (Some example_magnet, ''c'') \<and>
   scan_first btih_value example_magnet = Some ''ABCDEF0123456789ABCDEF0123456789ABCDEF01''"
  by (simp only: parseItem_positional_four_part_item) code_simp

text \<open>
  C3 (amended): in the pattern-scanning implementation (\<open>src/Acgnx.ts\<close>), for every
  fragment that yields a record, the record's info hash is the first 40-hex-character
  \<open>urn:btih:\<close> value of the magnet link; if there is none, the first trimmed part of the
  pipe-split description that is exactly 40 hexadecimal digits; and the empty string if
  there is none either (the value is lower-cased in each case).
\<close>

theorem infoHash_from_magnet_then_description:
  assumes "parseItem H itemXml = Inr t"
  shows "\<exists>m description.
           magnetLink t = Some m \<and>
           getTagContent itemXml ''description'' = Some description \<and>
           infoHash t =
             toLowerCase
               (case scan_first btih_value m of
                  Some h \<Rightarrow> h
                | None \<Rightarrow>
                    (case find is_hash40 (map trim (description_parts description)) of
                       Some p \<Rightarrow> p
                     | None \<Rightarrow> []))"
proof -
  from assms obtain description where
    d: "getTagContent itemXml ''description'' = Some description" and
    m: "magnetLink t = enclosure_magnet itemXml" and
    h: "infoHash t = toLowerCase (find_infoHash (enclosure_magnet itemXml) (description_parts description))"
    by (rule parseItem_Inr)
  obtain ml where ml: "enclosure_magnet itemXml = Some ml"
    using enclosure_magnet_defined [of itemXml] by blast
  show ?thesis
    using d m h ml by (simp add: find_infoHash_spec)
qed

theorem infoHash_from_magnet_then_description_witness:
  "parseItem example_host example_item = Inr example_torrent \<and>
   (\<exists>m description.
      magnetLink example_torrent = Some m \<and>
      getTagContent example_item ''description'' = Some description \<and>
      infoHash example_torrent =
        toLowerCase
          (case scan_first btih_value m of
             Some h \<Rightarrow> h
           | None \<Rightarrow>
               (case find is_hash40 (map trim (description_parts description)) of
                  Some p \<Rightarrow> p
                | None \<Rightarrow> []))) \<and>
   infoHash example_torrent = ''abcdef0123456789abcdef0123456789abcdef01''"
  using infoHash_from_magnet_then_description [OF parseItem_example_item]
  by (simp add: parseItem_example_item example_torrent_def)

text \<open>
  C4 (as stated): whenever the magnet link contains \<open>urn:btih:\<close> and the 40 hexadecimal
  digits \<open>ABCDEF0123456789ABCDEF0123456789ABCDEF01\<close>, the info hash is these digits in
  lower case. A magnet link may carry two such values, and the first one is taken.
\<close>

theorem infoHash_of_two_hash_magnet:
  "map_sum id (\<lambda>t. (magnetLink t, infoHash t)) (parseItem example_host two_hash_item) =
     Inr (Some two_hash_magnet, ''0000000000000000000000000000000000000000'') \<and>
   str_includes two_hash_magnet ''urn:btih:ABCDEF0123456789ABCDEF0123456789ABCDEF01''"
  by (simp only: parseItem_two_hash_item) code_simp

text \<open>
  C4 (amended): for any fragment that yields a record and whose magnet link contains a
  40-hex-character \<open>urn:btih:\<close> value \<open>h\<close>, with no such value beginning before it, the
  record's info hash is \<open>h\<close> lower-cased.
\<close>

theorem infoHash_of_first_btih:
  assumes "parseItem H itemXml = Inr t"
    and "magnetLink t = Some (pre @ ''urn:btih:'' @ h @ post)"
    and "length h = 40" and "list_all is_hex h"
    and "\<forall>j < length pre. \<not> btih_here (drop j (pre @ ''urn:btih:'' @ h @ post))"
  shows "infoHash t = toLowerCase h"
proof -
  from assms(1) obtain description where
    m: "magnetLink t = enclosure_magnet itemXml" and
    h: "infoHash t = toLowerCase (find_infoHash (enclosure_magnet itemXml) (description_parts description))"
    by (rule parseItem_Inr)
  have "scan_first btih_value (pre @ ''urn:btih:'' @ h @ post) = scan_first btih_value (''urn:btih:'' @ h @ post)"
    by (rule scan_first_skip) (use assms(5) in \<open>simp add: btih_value_def\<close>)
  also have "\<dots> = Some h"
    by (rule scan_first_here) (rule btih_here_literal [OF assms(3,4)])
  finally have s: "scan_first btih_value (pre @ ''urn:btih:'' @ h @ post) = Some h" .
  have e: "enclosure_magnet itemXml = Some (pre @ ''urn:btih:'' @ h @ post)"
    using m assms(2) by simp
  show ?thesis
    unfolding h e find_infoHash_spec s by simp
qed

theorem infoHash_of_first_btih_witness:
  "parseItem example_host example_item = Inr example_torrent \<and>
   magnetLink example_torrent =
     Some (''magnet:?xt='' @ ''urn:btih:'' @ ''ABCDEF0123456789ABCDEF0123456789ABCDEF01'' @ []) \<and>
   infoHash example_torrent = ''abcdef0123456789abcdef0123456789abcdef01''"
proof -
  let ?h = "''ABCDEF0123456789ABCDEF0123456789ABCDEF01''"
  have m: "magnetLink example_torrent = Some (''magnet:?xt='' @ ''urn:btih:'' @ ?h @ [])"
    by (simp add: example_torrent_def example_magnet_def)
  have l: "length ?h = 40" by simp
  have x: "list_all is_hex ?h" by code_simp
  have f: "\<forall>j < length ''magnet:?xt=''. \<not> btih_here (drop j (''magnet:?xt='' @ ''urn:btih:'' @ ?h @ []))"
    by (simp add: less_Suc_eq btih_here_def)
  have "infoHash example_torrent = toLowerCase ?h"
    by (rule infoHash_of_first_btih [OF parseItem_example_item m l x f])
  then show ?thesis
    using m by (simp add: parseItem_example_item example_torrent_def)
qed

end
